theory Spec2Isabelle
  imports Main
begin

section \<open>Strings as the scripts use them\<close>

text \<open>
  A string is the list of its characters, a character being a code point below U+0100
  (\<open>CHR 0xA0\<close> is the no-break space); text with other characters is outside the model.
  \<open>split()\<close> and \<open>strip()\<close> take as whitespace the characters for which \<open>str.isspace\<close>
  holds: below U+0100 these are U+0009 to U+000D, U+001C to U+0020, U+0085 and U+00A0.
  \<open>upper\<close> and \<open>lower\<close> change the letters a-z and A-Z only. Python's \<open>upper()\<close> also
  changes letters beyond ASCII, to letters beyond ASCII or to \<open>SS\<close>; this neither makes nor
  breaks an occurrence of one of the type markers, the only use the scripts make of it.
\<close>

definition is_space :: "char \<Rightarrow> bool" where
  "is_space c =
     (let n = (of_char c :: nat)
      in (9 \<le> n \<and> n \<le> 13) \<or> (28 \<le> n \<and> n \<le> 32) \<or> n = 133 \<or> n = 160)"

definition upper_char :: "char \<Rightarrow> char" where
  "upper_char c =
     (case map_of (zip ''abcdefghijklmnopqrstuvwxyz'' ''ABCDEFGHIJKLMNOPQRSTUVWXYZ'') c of
        Some u \<Rightarrow> u
      | None \<Rightarrow> c)"

definition lower_char :: "char \<Rightarrow> char" where
  "lower_char c =
     (case map_of (zip ''ABCDEFGHIJKLMNOPQRSTUVWXYZ'' ''abcdefghijklmnopqrstuvwxyz'') c of
        Some l \<Rightarrow> l
      | None \<Rightarrow> c)"

definition upper :: "string \<Rightarrow> string" where
  "upper s = map upper_char s"


text \<open>Python's \<open>t in s\<close> on strings: \<open>t\<close> occurs in \<open>s\<close> as a contiguous run.\<close>

fun starts_with :: "string \<Rightarrow> string \<Rightarrow> bool" where
  "starts_with [] s = True"
| "starts_with (a # t) [] = False"
| "starts_with (a # t) (b # s) = (a = b \<and> starts_with t s)"

fun contains :: "string \<Rightarrow> string \<Rightarrow> bool" where
  "contains t [] = (t = [])"
| "contains t (b # s) = (starts_with t (b # s) \<or> contains t s)"

text \<open>\<open>sep.join(xs)\<close>.\<close>

fun join :: "string \<Rightarrow> string list \<Rightarrow> string" where
  "join sep [] = []"
| "join sep [x] = x"
| "join sep (x # y # xs) = x @ sep @ join sep (y # xs)"

text \<open>
  \<open>s.split()\<close> with no argument: the maximal runs of non-whitespace characters, in
  order; no empty string is ever produced. \<open>cur\<close> is the token being read.
\<close>

fun split_aux :: "string \<Rightarrow> string \<Rightarrow> string list" where
  "split_aux cur [] = (if cur = [] then [] else [cur])"
| "split_aux cur (c # cs) =
     (if is_space c then (if cur = [] then split_aux [] cs else cur # split_aux [] cs)
      else split_aux (cur @ [c]) cs)"

definition split :: "string \<Rightarrow> string list" where
  "split s = split_aux [] s"

text \<open>\<open>s.strip()\<close>: leading and trailing whitespace removed.\<close>

definition strip :: "string \<Rightarrow> string" where
  "strip s = rev (dropWhile is_space (rev (dropWhile is_space s)))"

section \<open>The data of a search\<close>

text \<open>
  A value of a row is text, a number or NULL (Python's \<open>None\<close>). A record is the
  dictionary \<open>dict(zip(col_names, row))\<close>, kept as the list of its items in insertion
  order; a table match is the dictionary with the keys \<open>table\<close>, \<open>count\<close>, \<open>columns\<close>
  and \<open>records\<close> that \<open>search_all_tables\<close> appends to \<open>found_results\<close>.
\<close>

datatype val = Text string | Num int | Null

type_synonym db_record = "(string \<times> val) list"

text \<open>
  \<open>d[key] = v\<close>: the value of an existing key is replaced where it stands, a new key
  goes to the end. \<open>d.get(key)\<close> is \<open>map_of d key\<close>.
\<close>

fun dict_set :: "string \<Rightarrow> val \<Rightarrow> db_record \<Rightarrow> db_record" where
  "dict_set key v [] = [(key, v)]"
| "dict_set key v (item # items) =
     (if fst item = key then (key, v) # items else item # dict_set key v items)"

record table_match =
  table :: string
  count :: val
  columns :: "string list"
  records :: "db_record list"

text \<open>
  The exceptions: of the store, of an index out of range, of an operand of the wrong
  type, of pydantic's validation, and of the call to the language model.
\<close>

datatype error = DBError | IndexError | TypeError | ValidationError | ChatError

section \<open>The store the scripts talk to\<close>

text \<open>
  The database is reached through three calls: \<open>insp.get_table_names()\<close>,
  \<open>insp.get_columns(table_name)\<close> (each column with its name and \<open>str(col['type'])\<close>) and
  \<open>conn.execute(text(sql))\<close>, whose result has \<open>keys()\<close> and \<open>fetchall()\<close>. Each of them
  can raise; a connection that cannot be opened counts as the failure of the statement that
  was to be executed on it. A store is any triple of answers to these calls; the scripts
  only read, so the answers do not change during a search.
\<close>

record column =
  col_name :: string
  col_type :: string

record result =
  res_keys :: "string list"
  res_rows :: "val list list"

record store =
  get_table_names :: "error + string list"
  get_columns :: "string \<Rightarrow> error + column list"
  execute :: "string \<Rightarrow> error + result"

text \<open>
  What a search sends to the store, in order: the column lookup for a table, and each SQL
  text executed while that table is the loop's \<open>table_name\<close>.
\<close>

datatype event = GetColumns string | Execute string string

fun event_table :: "event \<Rightarrow> string" where
  "event_table (GetColumns t) = t"
| "event_table (Execute t sql) = t"

text \<open>\<open>result.scalar()\<close>: the first column of the first row, \<open>None\<close> when there is no row.\<close>

definition scalar :: "result \<Rightarrow> error + val" where
  "scalar r =
     (case res_rows r of
        [] \<Rightarrow> Inr Null
      | row # _ \<Rightarrow> (case row of [] \<Rightarrow> Inl IndexError | v # _ \<Rightarrow> Inr v))"

section \<open>search_all_tables (dash_multitable.py)\<close>

text \<open>
  The loop of \<open>search_person.py\<close> has the same body for one table, without the test
  of the budget.
\<close>

definition is_string_type :: "string \<Rightarrow> bool" where
  "is_string_type ty =
     (let col_type_str = upper ty
      in list_ex (\<lambda>t. contains t col_type_str) [''VARCHAR'', ''NVARCHAR'', ''TEXT'', ''CHAR''])"

definition string_cols_of :: "column list \<Rightarrow> string list" where
  "string_cols_of cols = map col_name (filter (\<lambda>col. is_string_type (col_type col)) cols)"

definition col_condition :: "string \<Rightarrow> string \<Rightarrow> string" where
  "col_condition term col = ''['' @ col @ ''] LIKE '%'' @ term @ ''%'' @ [CHR 0x27]"

definition term_condition :: "string list \<Rightarrow> string \<Rightarrow> string" where
  "term_condition string_cols term =
     ''('' @ join '' OR '' (map (col_condition term) string_cols) @ '')''"

definition where_clause :: "string list \<Rightarrow> string list \<Rightarrow> string" where
  "where_clause string_cols search_terms =
     join '' AND '' (map (term_condition string_cols) search_terms)"

definition select_sql :: "string \<Rightarrow> string \<Rightarrow> string" where
  "select_sql table_name wc = ''SELECT TOP 10 * FROM ['' @ table_name @ ''] WHERE '' @ wc"

definition count_sql :: "string \<Rightarrow> string \<Rightarrow> string" where
  "count_sql table_name wc = ''SELECT COUNT(*) FROM ['' @ table_name @ ''] WHERE '' @ wc"

text \<open>\<open>dict(zip(col_names, row))\<close>: a later duplicate of a key overwrites an earlier one.\<close>

definition record_of :: "string list \<Rightarrow> val list \<Rightarrow> db_record" where
  "record_of col_names row = foldl (\<lambda>d (key, v). dict_set key v d) [] (zip col_names row)"

text \<open>
  The body of the \<open>try\<close> for one table. It ends in one of three ways: an exception
  (\<open>Inl\<close>), nothing appended (\<open>Inr None\<close>: the \<open>continue\<close> of a table without string
  columns, or no row), or one match appended (\<open>Inr (Some m)\<close>). The second component is
  what was sent to the store on the way.
\<close>

definition scan_table :: "store \<Rightarrow> string list \<Rightarrow> string \<Rightarrow> (error + table_match option) \<times> event list" where
  "scan_table st search_terms table_name =
     (case get_columns st table_name of
        Inl e \<Rightarrow> (Inl e, [GetColumns table_name])
      | Inr cols \<Rightarrow>
          (let string_cols = string_cols_of cols in
           if string_cols = [] then (Inr None, [GetColumns table_name])
           else
             (let wc = where_clause string_cols search_terms;
                  sql = select_sql table_name wc
              in case execute st sql of
                   Inl e \<Rightarrow> (Inl e, [GetColumns table_name, Execute table_name sql])
                 | Inr res \<Rightarrow>
                     if res_rows res = []
                     then (Inr None, [GetColumns table_name, Execute table_name sql])
                     else
                       (let csql = count_sql table_name wc;
                            evs = [GetColumns table_name, Execute table_name sql,
                                   Execute table_name csql]
                        in case execute st csql of
                             Inl e \<Rightarrow> (Inl e, evs)
                           | Inr cres \<Rightarrow>
                               (case scalar cres of
                                  Inl e \<Rightarrow> (Inl e, evs)
                                | Inr total_count \<Rightarrow>
                                    (Inr (Some \<lparr>table = table_name,
                                                count = total_count,
                                                columns = res_keys res,
                                                records = map (record_of (res_keys res))
                                                              (res_rows res)\<rparr>),
                                     evs))))))"

text \<open>
  The \<open>for table_name in all_tables\<close> loop, with \<open>found_results\<close> and the events so far
  as its state. \<open>except Exception: pass\<close> turns an exception into "nothing appended".
\<close>

fun search_loop ::
  "store \<Rightarrow> string list \<Rightarrow> int \<Rightarrow> string list \<Rightarrow> table_match list \<times> event list
     \<Rightarrow> table_match list \<times> event list" where
  "search_loop st search_terms max_tables [] (found_results, log) = (found_results, log)"
| "search_loop st search_terms max_tables (table_name # rest) (found_results, log) =
     (if int (length found_results) \<ge> max_tables then (found_results, log)
      else (case scan_table st search_terms table_name of
              (Inr (Some m), evs) \<Rightarrow>
                search_loop st search_terms max_tables rest (found_results @ [m], log @ evs)
            | (Inr None, evs) \<Rightarrow>
                search_loop st search_terms max_tables rest (found_results, log @ evs)
            | (Inl e, evs) \<Rightarrow>
                search_loop st search_terms max_tables rest (found_results, log @ evs)))"

text \<open>
  \<open>get_table_names\<close> is called outside the \<open>try\<close>: its exception leaves the function.
\<close>

definition search_all_tables :: "store \<Rightarrow> string \<Rightarrow> int \<Rightarrow> error + (table_match list \<times> event list)" where
  "search_all_tables st search_term max_tables =
     (let search_terms = split search_term
      in case get_table_names st of
           Inl e \<Rightarrow> Inl e
         | Inr all_tables \<Rightarrow> Inr (search_loop st search_terms max_tables all_tables ([], [])))"

text \<open>
  What one table adds to \<open>found_results\<close>: its match, or nothing when the scan
  raised, was skipped or found no row.
\<close>

definition contributes :: "store \<Rightarrow> string list \<Rightarrow> string \<Rightarrow> table_match option" where
  "contributes st search_terms table_name =
     (case fst (scan_table st search_terms table_name) of
        Inr (Some m) \<Rightarrow> Some m
      | Inr None \<Rightarrow> None
      | Inl e \<Rightarrow> None)"

section \<open>combine_results\<close>

text \<open>
  Each record is copied and the copy gets the key \<open>_source_table\<close>; the copies are
  collected in one list, the table names in another.
\<close>

definition combine_results :: "table_match list \<Rightarrow> db_record list \<times> string list" where
  "combine_results table_results =
     foldl (\<lambda>(all_records, all_tables) res.
              (all_records
                 @ map (\<lambda>record. dict_set ''_source_table'' (Text (table res)) record)
                       (records res),
               all_tables @ [table res]))
           ([], []) table_results"

section \<open>introduce_person\<close>

text \<open>\<open>str(n)\<close> for an integer, as an f-string prints it.\<close>

fun digits :: "nat \<Rightarrow> string" where
  "digits n = (if n < 10 then [char_of (48 + n)] else digits (n div 10) @ [char_of (48 + n mod 10)])"

definition str_of_int :: "int \<Rightarrow> string" where
  "str_of_int i = (if i < 0 then ''-'' @ digits (nat (- i)) else digits (nat i))"

text \<open>\<open>f"{v}"\<close> and the truth value of \<open>v\<close> in \<open>if not v\<close>.\<close>

fun fmt :: "val \<Rightarrow> string" where
  "fmt (Text s) = s"
| "fmt (Num i) = str_of_int i"
| "fmt Null = ''None''"

fun truthy :: "val \<Rightarrow> bool" where
  "truthy (Text s) = (s \<noteq> [])"
| "truthy (Num i) = (i \<noteq> 0)"
| "truthy Null = False"

text \<open>\<open>record.get(key, default)\<close> and \<open>key in record\<close>.\<close>

definition get_or :: "db_record \<Rightarrow> string \<Rightarrow> val \<Rightarrow> val" where
  "get_or record key dflt = (case map_of record key of None \<Rightarrow> dflt | Some v \<Rightarrow> v)"

definition has_key :: "db_record \<Rightarrow> string \<Rightarrow> bool" where
  "has_key record key = (map_of record key \<noteq> None)"

text \<open>
  Lines 194 to 206 of \<open>introduce_person\<close>: the \<open>if\<close>/\<open>elif\<close> chain on the keys of the
  first record, then the default. The result is the value of the variable \<open>name\<close>.
\<close>

definition extract_name :: "db_record \<Rightarrow> val" where
  "extract_name first_record =
     (let name =
        (if has_key first_record ''FirstName'' \<and> has_key first_record ''LastName''
         then Text (strip (fmt (get_or first_record ''FirstName'' (Text []))
                           @ '' '' @ fmt (get_or first_record ''LastName'' (Text []))))
         else if has_key first_record ''Contact''
         then get_or first_record ''Contact'' (Text [])
         else if has_key first_record ''Attention''
         then get_or first_record ''Attention'' (Text [])
         else if has_key first_record ''Name''
         then get_or first_record ''Name'' (Text [])
         else Text [])
      in if \<not> truthy name then Text ''Unknown'' else name)"

text \<open>
  \<open>a or b\<close>, and \<open>v not in xs\<close> for a list of strings: a number or \<open>None\<close> is equal to
  no string.
\<close>

definition py_or :: "val \<Rightarrow> val \<Rightarrow> val" where
  "py_or a b = (if truthy a then a else b)"

fun in_strings :: "val \<Rightarrow> string list \<Rightarrow> bool" where
  "in_strings (Text s) xs = (s \<in> set xs)"
| "in_strings (Num i) xs = False"
| "in_strings Null xs = False"

text \<open>
  The loop that collects the e-mail addresses, or the phone numbers: for each record of
  each table in order, the first non-empty value under the three keys is appended as a
  string, unless it is already in the list.
\<close>

definition collect_contacts :: "string \<Rightarrow> string \<Rightarrow> string \<Rightarrow> table_match list \<Rightarrow> string list" where
  "collect_contacts k1 k2 k3 table_results =
     foldl (\<lambda>acc record.
              (let v = py_or (get_or record k1 Null)
                             (py_or (get_or record k2 Null) (get_or record k3 Null))
               in if truthy v \<and> \<not> in_strings v acc then acc @ [fmt v] else acc))
           [] (concat (map records table_results))"

text \<open>
  The result of \<open>introduce_person\<close>. Its fields are declared \<open>str\<close>, and pydantic (version
  2) refuses any other value with a \<open>ValidationError\<close>.
\<close>

record person_introduction =
  name :: string
  role_title :: string
  company :: string
  contact_info :: string
  relationship :: string
  summary :: string
  data_sources :: "string list"

definition as_str :: "val \<Rightarrow> string option" where
  "as_str v = (case v of Text s \<Rightarrow> Some s | _ \<Rightarrow> None)"

definition is_num :: "val \<Rightarrow> bool" where
  "is_num v = (case v of Num i \<Rightarrow> True | _ \<Rightarrow> False)"

text \<open>
  \<open>introduce_person\<close>. The reply of the language model is a parameter: the text it
  returns, or the exception of the call. The steps, in the order of the source: the early
  return for no result; the prompt, in which \<open>sum(r['count'] ...)\<close> raises \<open>TypeError\<close>
  unless every count is a number; the call of the model; the first record of the first
  table, an \<open>IndexError\<close> when it has none; the name; the contacts; and the construction of
  the result, which pydantic validates.
\<close>

definition introduce_person :: "error + string \<Rightarrow> table_match list \<Rightarrow> error + person_introduction" where
  "introduce_person reply table_results =
     (case table_results of
        [] \<Rightarrow>
          Inr \<lparr>name = ''Unknown'', role_title = ''Not found'', company = ''N/A'',
               contact_info = ''No records found'', relationship = ''Unknown'',
               summary = ''No records found in the database for this person.'',
               data_sources = []\<rparr>
      | first_result # _ \<Rightarrow>
        (let table_names = snd (combine_results table_results) in
         if \<not> list_all is_num (map count table_results) then Inl TypeError
         else
           (case reply of
              Inl e \<Rightarrow> Inl e
            | Inr intro_text \<Rightarrow>
                (case records first_result of
                   [] \<Rightarrow> Inl IndexError
                 | first_record # _ \<Rightarrow>
                     (let emails = collect_contacts ''EmailAddress'' ''EMail_Address'' ''Email''
                                     table_results;
                          phones = collect_contacts ''PhoneNumber'' ''Phone'' ''MobilePhone''
                                     table_results;
                          info = ''Email: ''
                                 @ (if emails \<noteq> [] then join '', '' (take 2 emails) else ''N/A'')
                                 @ '', Phone: ''
                                 @ (if phones \<noteq> [] then join '', '' (take 2 phones) else ''N/A'')
                      in case (as_str (extract_name first_record),
                               as_str (get_or first_record ''Position''
                                         (get_or first_record ''Title'' (Text ''Not specified''))),
                               as_str (get_or first_record ''CustomerName''
                                         (Text ''Associated organization''))) of
                           (Some n, Some r, Some c) \<Rightarrow>
                             Inr \<lparr>name = n, role_title = r, company = c, contact_info = info,
                                   relationship = ''Found in ''
                                     @ str_of_int (int (length table_results)) @ '' system(s)'',
                                   summary = intro_text,
                                   data_sources = table_names\<rparr>
                         | _ \<Rightarrow> Inl ValidationError)))))"

section \<open>query_and_introduce: what is searched\<close>

text \<open>
  \<open>search_term = question.split()[-1] if ' ' in question else question\<close>; indexing the
  empty list raises \<open>IndexError\<close>.
\<close>

definition search_term_of :: "string \<Rightarrow> error + string" where
  "search_term_of question =
     (if CHR '' '' \<in> set question
      then (case split question of [] \<Rightarrow> Inl IndexError | t # ts \<Rightarrow> Inr (last (t # ts)))
      else Inr question)"

text \<open>The search of \<open>query_and_introduce\<close>: the search term, then ten tables at most.\<close>

definition query_search :: "store \<Rightarrow> string \<Rightarrow> error + (table_match list \<times> event list)" where
  "query_search st question =
     (case search_term_of question of
        Inl e \<Rightarrow> Inl e
      | Inr search_term \<Rightarrow> search_all_tables st search_term 10)"

section \<open>A reference store\<close>

text \<open>
  The scripts only build SQL text; what comes back is the answer of
  \<open>conn.execute(text(sql))\<close>, that is of SQLAlchemy and the database behind it. To say
  what the records of a result contain, a store is described that holds its tables in
  memory and answers as SQL Server does on a fragment of statements:

  \<^item> the text has no colon, so that \<open>sqlalchemy.text()\<close> passes it on unchanged (it reads
    \<open>:name\<close> as a bind parameter, for which the scripts give no value, and removes the
    backslash of an escaped colon);
  \<^item> the text is \<^verbatim>\<open>SELECT TOP 10 * FROM [t] WHERE w\<close> or \<^verbatim>\<open>SELECT COUNT(*) FROM [t] WHERE w\<close>,
    where \<open>w\<close> is a conjunction of parenthesised disjunctions of \<^verbatim>\<open>[c] LIKE 'p'\<close>, each
    identifier ending at the first \<open>]\<close> and each literal at the first quote;
  \<open>t\<close> is one of the tables and every \<open>c\<close> one of its columns, under these very names;
  \<^item> every pattern \<open>p\<close> is made of printable ASCII characters other than \<open>[\<close> and the
    backslash (character classes are not modelled), and every text in the table is made
    of printable ASCII characters, so that no collation rule beyond letter case is
    involved.

  On this fragment \<open>%\<close> in a pattern stands for any run of characters and \<open>_\<close> for any
  one character, letters compare without case (the default collation), NULL matches
  nothing, and a sample is the first ten matching rows in the order of the table. A locked
  table makes every such statement on it fail. Outside the fragment the description says
  nothing: the answer is that of an arbitrary function \<open>other\<close>, so that what is proved
  of the reference store holds whatever a database does with those statements.
\<close>

record mem_table =
  mt_name :: string
  mt_columns :: "column list"
  mt_rows :: "val list list"
  mt_locked :: bool

fun strip_prefix :: "string \<Rightarrow> string \<Rightarrow> string option" where
  "strip_prefix [] s = Some s"
| "strip_prefix (a # p) [] = None"
| "strip_prefix (a # p) (b # s) = (if a = b then strip_prefix p s else None)"

text \<open>The text before the first \<open>c\<close>, and the text after it.\<close>

fun take_until :: "char \<Rightarrow> string \<Rightarrow> (string \<times> string) option" where
  "take_until c [] = None"
| "take_until c (x # xs) =
     (if x = c then Some ([], xs)
      else (case take_until c xs of None \<Rightarrow> None | Some (a, b) \<Rightarrow> Some (x # a, b)))"

text \<open>One \<^verbatim>\<open>[c] LIKE 'p'\<close>: the column, the pattern and the rest of the text.\<close>

definition parse_cond :: "string \<Rightarrow> ((string \<times> string) \<times> string) option" where
  "parse_cond s =
     (case strip_prefix ''['' s of
        None \<Rightarrow> None
      | Some s1 \<Rightarrow>
          (case take_until (CHR '']'') s1 of
             None \<Rightarrow> None
           | Some (col, s2) \<Rightarrow>
               (case strip_prefix ('' LIKE '' @ [CHR 0x27]) s2 of
                  None \<Rightarrow> None
                | Some s3 \<Rightarrow>
                    (case take_until (CHR 0x27) s3 of
                       None \<Rightarrow> None
                     | Some (pat, s4) \<Rightarrow> Some ((col, pat), s4)))))"

text \<open>
  Conditions joined by \<^verbatim>\<open> OR \<close>. The first argument bounds the number of conditions
  read; the length of the text is always enough.
\<close>

fun parse_conds :: "nat \<Rightarrow> string \<Rightarrow> ((string \<times> string) list \<times> string) option" where
  "parse_conds 0 s = None"
| "parse_conds (Suc n) s =
     (case parse_cond s of
        None \<Rightarrow> None
      | Some (c, r) \<Rightarrow>
          (case strip_prefix '' OR '' r of
             None \<Rightarrow> Some ([c], r)
           | Some r' \<Rightarrow>
               (case parse_conds n r' of
                  None \<Rightarrow> None
                | Some (cs, r'') \<Rightarrow> Some (c # cs, r''))))"

definition parse_group :: "string \<Rightarrow> ((string \<times> string) list \<times> string) option" where
  "parse_group s =
     (case strip_prefix ''('' s of
        None \<Rightarrow> None
      | Some s1 \<Rightarrow>
          (case parse_conds (length s1) s1 of
             None \<Rightarrow> None
           | Some (cs, s2) \<Rightarrow>
               (case strip_prefix '')'' s2 of
                  None \<Rightarrow> None
                | Some s3 \<Rightarrow> Some (cs, s3))))"

text \<open>Groups joined by \<^verbatim>\<open> AND \<close>, up to the end of the text.\<close>

fun parse_groups :: "nat \<Rightarrow> string \<Rightarrow> (string \<times> string) list list option" where
  "parse_groups 0 s = None"
| "parse_groups (Suc n) s =
     (case parse_group s of
        None \<Rightarrow> None
      | Some (g, r) \<Rightarrow>
          if r = [] then Some [g]
          else (case strip_prefix '' AND '' r of
                  None \<Rightarrow> None
                | Some r' \<Rightarrow>
                    (case parse_groups n r' of
                       None \<Rightarrow> None
                     | Some gs \<Rightarrow> Some (g # gs))))"

definition parse_where :: "string \<Rightarrow> (string \<times> string) list list option" where
  "parse_where s = parse_groups (length s) s"

text \<open>\<open>like p s\<close>: the text \<open>s\<close> matches the pattern \<open>p\<close>.\<close>

fun like :: "string \<Rightarrow> string \<Rightarrow> bool" where
  "like [] s = (s = [])"
| "like (p # ps) [] = (p = CHR ''%'' \<and> like ps [])"
| "like (p # ps) (c # s) =
     (if p = CHR ''%'' then like ps (c # s) \<or> like (p # ps) s
      else (p = CHR ''_'' \<or> lower_char p = lower_char c) \<and> like ps s)"

definition cond_holds :: "db_record \<Rightarrow> string \<times> string \<Rightarrow> bool" where
  "cond_holds record cp =
     (case map_of record (fst cp) of
        Some (Text v) \<Rightarrow> like (snd cp) v
      | _ \<Rightarrow> False)"

definition row_matches :: "(string \<times> string) list list \<Rightarrow> db_record \<Rightarrow> bool" where
  "row_matches groups record = list_all (\<lambda>g. list_ex (cond_holds record) g) groups"

definition find_table :: "mem_table list \<Rightarrow> string \<Rightarrow> mem_table option" where
  "find_table db t = find (\<lambda>x. mt_name x = t) db"

text \<open>The characters of a pattern and the texts of a table that the fragment covers.\<close>

definition modelled_pattern :: "string \<Rightarrow> bool" where
  "modelled_pattern p =
     list_all (\<lambda>c. 32 \<le> (of_char c :: nat) \<and> (of_char c :: nat) \<le> 126
                  \<and> c \<noteq> CHR ''['' \<and> c \<noteq> CHR 0x5C) p"

definition ascii_text :: "string \<Rightarrow> bool" where
  "ascii_text s = list_all (\<lambda>c. 32 \<le> (of_char c :: nat) \<and> (of_char c :: nat) \<le> 126) s"

definition ascii_table :: "mem_table \<Rightarrow> bool" where
  "ascii_table x =
     list_all (list_all (\<lambda>v. case v of Text s \<Rightarrow> ascii_text s | _ \<Rightarrow> True)) (mt_rows x)"

text \<open>
  The rows of \<open>t\<close> that satisfy the text \<open>w\<close> of a WHERE clause, with the names of the
  columns; the error of a locked table; or \<open>None\<close> outside the fragment.
\<close>

definition matching_rows ::
  "mem_table list \<Rightarrow> string \<Rightarrow> string \<Rightarrow> (error + (string list \<times> val list list)) option" where
  "matching_rows db t w =
     (case find_table db t of
        None \<Rightarrow> None
      | Some x \<Rightarrow>
          (case parse_where w of
             None \<Rightarrow> None
           | Some groups \<Rightarrow>
               (let names = map col_name (mt_columns x) in
                if list_all (\<lambda>cp. modelled_pattern (snd cp) \<and> fst cp \<in> set names) (concat groups)
                   \<and> ascii_table x
                then (if mt_locked x then Some (Inl DBError)
                      else Some (Inr (names,
                                      filter (\<lambda>row. row_matches groups (record_of names row))
                                             (mt_rows x))))
                else None)))"

definition run_statement :: "mem_table list \<Rightarrow> bool \<Rightarrow> string \<Rightarrow> (error + result) option" where
  "run_statement db counting s =
     (case take_until (CHR '']'') s of
        None \<Rightarrow> None
      | Some (t, s1) \<Rightarrow>
          (case strip_prefix '' WHERE '' s1 of
             None \<Rightarrow> None
           | Some w \<Rightarrow>
               (case matching_rows db t w of
                  None \<Rightarrow> None
                | Some (Inl e) \<Rightarrow> Some (Inl e)
                | Some (Inr (names, hits)) \<Rightarrow>
                    Some (Inr (if counting
                               then \<lparr>res_keys = [[]], res_rows = [[Num (int (length hits))]]\<rparr>
                               else \<lparr>res_keys = names, res_rows = take 10 hits\<rparr>)))))"

text \<open>The answer to a statement of the fragment, \<open>None\<close> for any other text.\<close>

definition modelled_answer :: "mem_table list \<Rightarrow> string \<Rightarrow> (error + result) option" where
  "modelled_answer db sql =
     (if CHR 0x3A \<in> set sql then None
      else (case strip_prefix ''SELECT TOP 10 * FROM ['' sql of
              Some s \<Rightarrow> run_statement db False s
            | None \<Rightarrow>
                (case strip_prefix ''SELECT COUNT(*) FROM ['' sql of
                   Some s \<Rightarrow> run_statement db True s
                 | None \<Rightarrow> None)))"

definition mem_execute :: "(string \<Rightarrow> error + result) \<Rightarrow> mem_table list \<Rightarrow> string \<Rightarrow> error + result" where
  "mem_execute other db sql =
     (case modelled_answer db sql of
        Some answer \<Rightarrow> answer
      | None \<Rightarrow> other sql)"

definition mem_store :: "(string \<Rightarrow> error + result) \<Rightarrow> mem_table list \<Rightarrow> store" where
  "mem_store other db =
     \<lparr>get_table_names = Inr (map mt_name db),
      get_columns = (\<lambda>t. case find_table db t of
                            None \<Rightarrow> Inl DBError
                          | Some x \<Rightarrow> Inr (mt_columns x)),
      execute = mem_execute other db\<rparr>"

text \<open>
  One choice of \<open>other\<close>, for the examples: every statement outside the fragment is
  refused.
\<close>

definition refuses :: "string \<Rightarrow> error + result" where
  "refuses sql = Inl DBError"

section \<open>Example tables\<close>

text \<open>
  The table of the specification's scenario, and tables for the other cases: a second
  table with more matches, a table without any string column, a locked table and the same
  table unlocked, and a table with more matching rows than one sample holds.
\<close>

definition contacts_table :: mem_table where
  "contacts_table =
     \<lparr>mt_name = ''Contacts'',
      mt_columns = [\<lparr>col_name = ''FirstName'', col_type = ''VARCHAR(50)''\<rparr>,
                    \<lparr>col_name = ''Age'', col_type = ''INTEGER''\<rparr>],
      mt_rows = [[Text ''Linda'', Num 40]],
      mt_locked = False\<rparr>"

definition jobs_table :: mem_table where
  "jobs_table =
     \<lparr>mt_name = ''Jobs'',
      mt_columns = [\<lparr>col_name = ''JobNumber'', col_type = ''INTEGER''\<rparr>,
                    \<lparr>col_name = ''Attention'', col_type = ''NVARCHAR(80)''\<rparr>],
      mt_rows = [[Num 1, Text ''Linda Hall''], [Num 2, Text ''Bob''], [Num 3, Text ''LINDA H.'']],
      mt_locked = False\<rparr>"

definition sizes_table :: mem_table where
  "sizes_table =
     \<lparr>mt_name = ''Sizes'',
      mt_columns = [\<lparr>col_name = ''Width'', col_type = ''INTEGER''\<rparr>,
                    \<lparr>col_name = ''Height'', col_type = ''DECIMAL(10, 2)''\<rparr>],
      mt_rows = [[Num 3, Num 4]],
      mt_locked = False\<rparr>"

definition ledger_table :: "bool \<Rightarrow> mem_table" where
  "ledger_table locked =
     \<lparr>mt_name = ''Ledger'',
      mt_columns = [\<lparr>col_name = ''Memo'', col_type = ''TEXT''\<rparr>],
      mt_rows = [[Text ''rent''], [Null]],
      mt_locked = locked\<rparr>"

definition people_table :: mem_table where
  "people_table =
     \<lparr>mt_name = ''People'',
      mt_columns = [\<lparr>col_name = ''FirstName'', col_type = ''VARCHAR(50)''\<rparr>,
                    \<lparr>col_name = ''LastName'', col_type = ''VARCHAR(50)''\<rparr>],
      mt_rows = [Text ''Mark'', Text ''Jones''] # replicate 12 [Text ''Linda'', Text ''Elinski''],
      mt_locked = False\<rparr>"

text \<open>
  A store that answers like the reference store over \<open>Contacts\<close>, except that every
  COUNT statement fails (a count over a whole table can time out where the first rows come
  back at once).
\<close>

definition count_timeout_store :: store where
  "count_timeout_store =
     (mem_store refuses [contacts_table])
       \<lparr>execute := (\<lambda>sql. if starts_with ''SELECT COUNT'' sql then Inl DBError
                           else mem_execute refuses [contacts_table] sql)\<rparr>"

text \<open>A table whose row has an empty \<open>Contact\<close> and a \<open>Name\<close>.\<close>

definition inquiries_table :: mem_table where
  "inquiries_table =
     \<lparr>mt_name = ''Inquiries'',
      mt_columns = [\<lparr>col_name = ''Contact'', col_type = ''VARCHAR(80)''\<rparr>,
                    \<lparr>col_name = ''Name'', col_type = ''VARCHAR(80)''\<rparr>],
      mt_rows = [[Text [], Text ''Bob'']],
      mt_locked = False\<rparr>"

section \<open>Notions of the specification\<close>





text \<open>
  The candidates for the name in their priority order, each with its value when the
  record has its fields: FirstName with LastName, Contact, Attention, Name.
\<close>

definition name_candidates :: "db_record \<Rightarrow> val option list" where
  "name_candidates record =
     [if has_key record ''FirstName'' \<and> has_key record ''LastName''
      then Some (Text (strip (fmt (get_or record ''FirstName'' (Text []))
                              @ '' '' @ fmt (get_or record ''LastName'' (Text [])))))
      else None,
      map_of record ''Contact'',
      map_of record ''Attention'',
      map_of record ''Name'']"

text \<open>
  The name as the specification words it: the first candidate that is present and not
  empty, else \<open>"Unknown"\<close>.
\<close>

definition spec_name :: "db_record \<Rightarrow> val" where
  "spec_name record =
     (case find (\<lambda>c. case c of None \<Rightarrow> False | Some v \<Rightarrow> truthy v) (name_candidates record) of
        Some (Some v) \<Rightarrow> v
      | _ \<Rightarrow> Text ''Unknown'')"

section \<open>The loop over the tables\<close>

lemma search_loop_Cons:
  "search_loop st ts b (t # rest) (found, log) =
     (if int (length found) \<ge> b then (found, log)
      else search_loop st ts b rest
             (case contributes st ts t of Some m \<Rightarrow> found @ [m] | None \<Rightarrow> found,
              log @ snd (scan_table st ts t)))"
  by (cases "scan_table st ts t")
     (simp add: contributes_def split: sum.splits option.splits)

lemma search_loop_full:
  "int (length found) \<ge> b \<Longrightarrow> search_loop st ts b tabs (found, log) = (found, log)"
  by (cases tabs) simp_all

lemma search_loop_invariant:
  assumes "I found log"
    and "\<And>t f l. t \<in> set tabs \<Longrightarrow> I f l \<Longrightarrow>
           I (case contributes st ts t of Some m \<Rightarrow> f @ [m] | None \<Rightarrow> f)
             (l @ snd (scan_table st ts t))"
  shows "I (fst (search_loop st ts b tabs (found, log)))
           (snd (search_loop st ts b tabs (found, log)))"
  using assms
proof (induction tabs arbitrary: found log)
  case Nil
  then show ?case by simp
next
  case (Cons t tabs)
  show ?case
  proof (cases "int (length found) \<ge> b")
    case True
    with Cons.prems(1) show ?thesis by (simp add: search_loop_full)
  next
    case False
    have step: "I (case contributes st ts t of Some m \<Rightarrow> found @ [m] | None \<Rightarrow> found)
                  (log @ snd (scan_table st ts t))"
      using Cons.prems by simp
    have "I (fst (search_loop st ts b tabs
                (case contributes st ts t of Some m \<Rightarrow> found @ [m] | None \<Rightarrow> found,
                 log @ snd (scan_table st ts t))))
            (snd (search_loop st ts b tabs
                (case contributes st ts t of Some m \<Rightarrow> found @ [m] | None \<Rightarrow> found,
                 log @ snd (scan_table st ts t))))"
      using Cons.prems(2) by (intro Cons.IH [OF step]) simp
    with False show ?thesis by (simp only: search_loop_Cons if_False)
  qed
qed

lemma search_loop_length:
  "length (fst (search_loop st ts b tabs (found, log))) \<le> max (length found) (nat b)"
proof (induction tabs arbitrary: found log)
  case Nil
  show ?case by simp
next
  case (Cons t tabs)
  show ?case
  proof (cases "int (length found) \<ge> b")
    case True
    then show ?thesis by (simp add: search_loop_full)
  next
    case False
    let ?f = "case contributes st ts t of Some m \<Rightarrow> found @ [m] | None \<Rightarrow> found"
    have "length ?f \<le> nat b" using False by (cases "contributes st ts t") auto
    moreover have "length found \<le> nat b" using False by simp
    ultimately have "max (length ?f) (nat b) \<le> max (length found) (nat b)" by simp
    with Cons.IH [of ?f "log @ snd (scan_table st ts t)"] False
    show ?thesis by (simp only: search_loop_Cons if_False)
  qed
qed

lemma search_loop_append:
  "search_loop st ts b (tabs @ rest) acc = search_loop st ts b rest (search_loop st ts b tabs acc)"
proof (induction tabs arbitrary: acc)
  case Nil
  show ?case by (cases acc) simp
next
  case (Cons t tabs)
  obtain found log where acc: "acc = (found, log)" by (cases acc)
  show ?case
  proof (cases "int (length found) \<ge> b")
    case True
    then show ?thesis using acc by (simp add: search_loop_full)
  next
    case False
    then show ?thesis using acc Cons.IH
      by (simp only: append_Cons search_loop_Cons if_False)
  qed
qed

lemma search_loop_stop:
  assumes "int (length (fst (search_loop st ts b tabs acc))) \<ge> b"
  shows "search_loop st ts b (tabs @ rest) acc = search_loop st ts b tabs acc"
proof -
  obtain found log where r: "search_loop st ts b tabs acc = (found, log)"
    by (cases "search_loop st ts b tabs acc")
  with assms have "int (length found) \<ge> b" by simp
  then show ?thesis using r by (simp add: search_loop_append search_loop_full)
qed

lemma scan_table_events:
  "ev \<in> set (snd (scan_table st ts t)) \<Longrightarrow> event_table ev = t"
  by (auto simp: scan_table_def Let_def split: sum.splits if_splits)

lemma contributes_table:
  "contributes st ts t = Some m \<Longrightarrow> table m = t"
  by (auto simp: contributes_def scan_table_def Let_def split: sum.splits if_splits option.splits)

lemma search_loop_events:
  assumes "\<forall>ev\<in>set log. event_table ev \<in> set tabs"
  shows "\<forall>ev\<in>set (snd (search_loop st ts b tabs (found, log))). event_table ev \<in> set tabs"
  by (rule search_loop_invariant
        [where I = "\<lambda>f l. \<forall>ev\<in>set l. event_table ev \<in> set tabs" and found = found, OF assms])
     (auto dest: scan_table_events)

lemma search_loop_cong:
  assumes "\<forall>t\<in>set tabs. contributes st' ts t = contributes st ts t"
  shows "fst (search_loop st' ts b tabs (found, log')) = fst (search_loop st ts b tabs (found, log))"
  using assms
proof (induction tabs arbitrary: found log log')
  case Nil
  show ?case by simp
next
  case (Cons t tabs)
  show ?case
  proof (cases "int (length found) \<ge> b")
    case True
    then show ?thesis by (simp add: search_loop_full)
  next
    case False
    have eq: "contributes st' ts t = contributes st ts t" using Cons.prems by simp
    have "\<forall>u\<in>set tabs. contributes st' ts u = contributes st ts u" using Cons.prems by simp
    from Cons.IH [OF this] False eq show ?thesis
      by (simp only: search_loop_Cons if_False)
  qed
qed

lemma search_loop_skip:
  assumes "\<forall>t\<in>set tabs. contributes st ts t = None"
  shows "fst (search_loop st ts b tabs (found, log)) = found"
  using assms
proof (induction tabs arbitrary: log)
  case Nil
  show ?case by simp
next
  case (Cons t tabs)
  show ?case
  proof (cases "int (length found) \<ge> b")
    case True
    then show ?thesis by (simp add: search_loop_full)
  next
    case False
    have "contributes st ts t = None" using Cons.prems by simp
    moreover have "\<forall>u\<in>set tabs. contributes st ts u = None" using Cons.prems by simp
    ultimately show ?thesis using Cons.IH False
      by (simp only: search_loop_Cons if_False) simp
  qed
qed

section \<open>The table budget\<close>

text \<open>
  C2. With a budget \<open>b \<ge> 0\<close> the search returns at most \<open>b\<close> matches. With
  \<open>b = 0\<close> it returns no match and sends nothing to the store. Once the tables of a prefix
  \<open>pre\<close> of the catalogue have filled the budget, the result and the events are those of
  the search over \<open>pre\<close> alone: every event is for a table of \<open>pre\<close>, none for a later one.
\<close>

theorem budget_bounds_search:
  assumes "0 \<le> b" and "search_all_tables st phrase b = Inr (found, log)"
  shows "int (length found) \<le> b
       \<and> (b = 0 \<longrightarrow> found = [] \<and> log = [])
       \<and> (\<forall>pre post.
             get_table_names st = Inr (pre @ post)
             \<and> b \<le> int (length (fst (search_loop st (split phrase) b pre ([], []))))
             \<longrightarrow> (found, log) = search_loop st (split phrase) b pre ([], [])
                 \<and> (\<forall>ev\<in>set log. event_table ev \<in> set pre))"
proof -
  obtain tabs where tabs: "get_table_names st = Inr tabs"
    using assms(2) by (cases "get_table_names st") (simp_all add: search_all_tables_def)
  have res: "search_loop st (split phrase) b tabs ([], []) = (found, log)"
    using assms(2) tabs by (simp add: search_all_tables_def)
  have "length (fst (search_loop st (split phrase) b tabs ([], []))) \<le> max (length ([]::table_match list)) (nat b)"
    by (rule search_loop_length)
  then have bound: "int (length found) \<le> b" using res assms(1) by simp
  have zero: "b = 0 \<longrightarrow> found = [] \<and> log = []"
    using res search_loop_full [of b "[]" st "split phrase" tabs "[]"] by auto
  have stop: "(found, log) = search_loop st (split phrase) b pre ([], [])
                \<and> (\<forall>ev\<in>set log. event_table ev \<in> set pre)"
    if cat: "get_table_names st = Inr (pre @ post)"
      and full: "b \<le> int (length (fst (search_loop st (split phrase) b pre ([], []))))"
    for pre post
  proof -
    have "tabs = pre @ post" using cat tabs by simp
    then have eq: "search_loop st (split phrase) b pre ([], []) = (found, log)"
      using search_loop_stop [OF full, of post] res by simp
    have "\<forall>ev\<in>set (snd (search_loop st (split phrase) b pre ([], []))). event_table ev \<in> set pre"
      by (rule search_loop_events) simp
    with eq show ?thesis by simp
  qed
  from bound zero stop show ?thesis by blast
qed

theorem budget_bounds_search_witness:
  "(0::int) \<le> 1
   \<and> (\<exists>found log.
        search_all_tables (mem_store refuses [contacts_table, jobs_table]) ''Linda'' 1 = Inr (found, log)
        \<and> length found = 1 \<and> (\<forall>ev\<in>set log. event_table ev = ''Contacts''))"
proof -
  let ?st = "mem_store refuses [contacts_table, jobs_table]"
  obtain found log where s: "search_all_tables ?st ''Linda'' 1 = Inr (found, log)"
    by (cases "search_loop ?st (split ''Linda'') 1 [''Contacts'', ''Jobs''] ([], [])")
       (simp add: search_all_tables_def mem_store_def contacts_table_def jobs_table_def)
  have cat: "get_table_names ?st = Inr ([''Contacts''] @ [''Jobs''])"
    by (simp add: mem_store_def contacts_table_def jobs_table_def)
  have full: "1 \<le> int (length (fst (search_loop ?st (split ''Linda'') 1 [''Contacts''] ([], []))))"
    by code_simp
  have len: "length (fst (search_loop ?st (split ''Linda'') 1 [''Contacts''] ([], []))) = 1"
    by code_simp
  have pos: "(0::int) \<le> 1" by simp
  from budget_bounds_search [OF pos s]
  have "get_table_names ?st = Inr ([''Contacts''] @ [''Jobs''])
          \<and> 1 \<le> int (length (fst (search_loop ?st (split ''Linda'') 1 [''Contacts''] ([], []))))
        \<longrightarrow> (found, log) = search_loop ?st (split ''Linda'') 1 [''Contacts''] ([], [])
            \<and> (\<forall>ev\<in>set log. event_table ev \<in> set [''Contacts''])"
    by blast
  with cat full have r: "(found, log) = search_loop ?st (split ''Linda'') 1 [''Contacts''] ([], [])"
    and e: "\<forall>ev\<in>set log. event_table ev \<in> set [''Contacts'']"
    by blast+
  from r len have "length found = 1" by (metis fst_conv)
  moreover from e have "\<forall>ev\<in>set log. event_table ev = ''Contacts''" by simp
  ultimately show ?thesis using s pos by blast
qed

section \<open>Tables without a string column\<close>

lemma scan_table_no_string_cols:
  assumes "get_columns st t = Inr cols"
    and "\<forall>c\<in>set cols. \<not> is_string_type (col_type c)"
  shows "scan_table st ts t = (Inr None, [GetColumns t])"
proof -
  have "string_cols_of cols = []"
    using assms(2) by (simp add: string_cols_of_def filter_empty_conv)
  with assms(1) show ?thesis by (simp add: scan_table_def)
qed

text \<open>
  C7. A table whose columns all have a declared type without any of the markers VARCHAR,
  NVARCHAR, TEXT, CHAR (in upper case, as a substring) has no match in the result, and no
  statement is executed while it is scanned, whatever its rows are. NCHAR and LONGTEXT
  contain a marker and count as string types.
\<close>

theorem table_without_string_column_is_skipped:
  assumes "get_columns st t = Inr cols"
    and "\<forall>c\<in>set cols. \<not> is_string_type (col_type c)"
    and "search_all_tables st phrase b = Inr (found, log)"
  shows "(\<forall>m\<in>set found. table m \<noteq> t) \<and> (\<forall>sql. Execute t sql \<notin> set log)
       \<and> is_string_type ''NCHAR(10)'' \<and> is_string_type ''longtext''"
proof -
  obtain tabs where tabs: "get_table_names st = Inr tabs"
    using assms(3) by (cases "get_table_names st") (simp_all add: search_all_tables_def)
  have res: "search_loop st (split phrase) b tabs ([], []) = (found, log)"
    using assms(3) tabs by (simp add: search_all_tables_def)
  let ?I = "\<lambda>f l. (\<forall>m\<in>set f. table m \<noteq> t) \<and> (\<forall>sql. Execute t sql \<notin> set l)"
  have step: "?I (case contributes st (split phrase) u of Some m \<Rightarrow> f @ [m] | None \<Rightarrow> f)
                 (l @ snd (scan_table st (split phrase) u))"
    if "?I f l" for u f l
  proof (cases "u = t")
    case True
    have "scan_table st (split phrase) t = (Inr None, [GetColumns t])"
      using assms(1,2) by (rule scan_table_no_string_cols)
    then show ?thesis using that True by (simp add: contributes_def)
  next
    case False
    have "\<forall>sql. Execute t sql \<notin> set (snd (scan_table st (split phrase) u))"
      using False scan_table_events [of _ st "split phrase" u] by fastforce
    moreover have "\<forall>m. contributes st (split phrase) u = Some m \<longrightarrow> table m \<noteq> t"
      using False contributes_table by blast
    ultimately show ?thesis using that by (auto split: option.splits)
  qed
  have "?I (fst (search_loop st (split phrase) b tabs ([], [])))
           (snd (search_loop st (split phrase) b tabs ([], [])))"
    by (rule search_loop_invariant [where I = ?I]) (simp, rule step)
  moreover have "is_string_type ''NCHAR(10)''" "is_string_type ''longtext''"
    by (simp_all add: is_string_type_def upper_def upper_char_def)
  ultimately show ?thesis using res by simp
qed

theorem table_without_string_column_is_skipped_witness:
  "get_columns (mem_store refuses [sizes_table, contacts_table]) ''Sizes'' = Inr (mt_columns sizes_table)
   \<and> list_all (\<lambda>c. \<not> is_string_type (col_type c)) (mt_columns sizes_table)
   \<and> map table (fst (projr (search_all_tables (mem_store refuses [sizes_table, contacts_table]) ''Linda'' 10)))
       = [''Contacts'']
   \<and> list_all (\<lambda>m. table m \<noteq> ''Sizes'')
        (fst (projr (search_all_tables (mem_store refuses [sizes_table, contacts_table]) ''Linda'' 10)))
   \<and> list_all (\<lambda>ev. ev = GetColumns ''Sizes'' \<or> event_table ev \<noteq> ''Sizes'')
        (snd (projr (search_all_tables (mem_store refuses [sizes_table, contacts_table]) ''Linda'' 10)))"
proof -
  let ?st = "mem_store refuses [sizes_table, contacts_table]"
  have c: "get_columns ?st ''Sizes'' = Inr (mt_columns sizes_table)"
    by code_simp
  have n: "list_all (\<lambda>c. \<not> is_string_type (col_type c)) (mt_columns sizes_table)"
    by code_simp
  then have n': "\<forall>c\<in>set (mt_columns sizes_table). \<not> is_string_type (col_type c)"
    by (simp add: list_all_iff)
  obtain found log where s: "search_all_tables ?st ''Linda'' 10 = Inr (found, log)"
    by (cases "search_loop ?st (split ''Linda'') 10 [''Sizes'', ''Contacts''] ([], [])")
       (simp add: search_all_tables_def mem_store_def contacts_table_def sizes_table_def)
  from table_without_string_column_is_skipped [OF c n' s]
  have m: "\<forall>m\<in>set found. table m \<noteq> ''Sizes''" and e: "\<forall>sql. Execute ''Sizes'' sql \<notin> set log"
    by blast+
  have "ev = GetColumns ''Sizes'' \<or> event_table ev \<noteq> ''Sizes''" if "ev \<in> set log" for ev
    by (cases ev) (use that e in auto)
  then have e': "list_all (\<lambda>ev. ev = GetColumns ''Sizes'' \<or> event_table ev \<noteq> ''Sizes'') log"
    by (simp add: list_all_iff)
  from m have m': "list_all (\<lambda>m. table m \<noteq> ''Sizes'') found"
    by (simp add: list_all_iff)
  have f: "map table (fst (projr (search_all_tables ?st ''Linda'' 10))) = [''Contacts'']"
    by code_simp
  from c n f m' e' show ?thesis unfolding s by simp
qed

section \<open>Faults while a table is scanned\<close>

text \<open>
  C3. Let the scan of table \<open>T\<close> raise in the store \<open>st\<close>, and let \<open>st'\<close> be a store with
  the same catalogue in which \<open>T\<close> simply has no match and every other table contributes
  what it contributes in \<open>st\<close>. Then the search returns normally on both, with the same
  matches, none of them for \<open>T\<close>. When no table contributes a match (each one raised, was
  skipped or had no row), the search returns the empty list, not an error.
\<close>

theorem scan_fault_is_skipped:
  assumes "get_table_names st = Inr tabs" and "get_table_names st' = Inr tabs"
    and "isl (fst (scan_table st (split phrase) T))"
    and "fst (scan_table st' (split phrase) T) = Inr None"
    and "\<forall>t\<in>set tabs. t \<noteq> T \<longrightarrow> contributes st' (split phrase) t = contributes st (split phrase) t"
  shows "(\<exists>found log log'.
            search_all_tables st phrase b = Inr (found, log)
            \<and> search_all_tables st' phrase b = Inr (found, log')
            \<and> (\<forall>m\<in>set found. table m \<noteq> T))
       \<and> ((\<forall>t\<in>set tabs. contributes st (split phrase) t = None)
            \<longrightarrow> (\<exists>log. search_all_tables st phrase b = Inr ([], log)))"
proof -
  let ?ts = "split phrase"
  have cT: "contributes st ?ts T = None"
    using assms(3) by (cases "fst (scan_table st ?ts T)") (simp_all add: contributes_def)
  have cT': "contributes st' ?ts T = None"
    using assms(4) by (simp add: contributes_def)
  have agree: "\<forall>t\<in>set tabs. contributes st' ?ts t = contributes st ?ts t"
    using assms(5) cT cT' by auto
  have same: "fst (search_loop st' ?ts b tabs ([], [])) = fst (search_loop st ?ts b tabs ([], []))"
    using agree by (rule search_loop_cong)
  let ?I = "\<lambda>(f :: table_match list) (l :: event list). \<forall>m\<in>set f. table m \<noteq> T"
  have "?I (fst (search_loop st ?ts b tabs ([], []))) (snd (search_loop st ?ts b tabs ([], [])))"
  proof (rule search_loop_invariant [where I = ?I])
    show "?I [] []" by simp
  next
    fix t and f :: "table_match list" and l :: "event list"
    assume "t \<in> set tabs" and "?I f l"
    then show "?I (case contributes st ?ts t of Some m \<Rightarrow> f @ [m] | None \<Rightarrow> f)
                  (l @ snd (scan_table st ?ts t))"
      using cT contributes_table [of st ?ts t] by (cases "t = T") (auto split: option.splits)
  qed
  then have absent: "\<forall>m\<in>set (fst (search_loop st ?ts b tabs ([], []))). table m \<noteq> T" .
  have first: "\<exists>found log log'.
            search_all_tables st phrase b = Inr (found, log)
            \<and> search_all_tables st' phrase b = Inr (found, log')
            \<and> (\<forall>m\<in>set found. table m \<noteq> T)"
  proof (intro exI conjI)
    show "search_all_tables st phrase b
            = Inr (fst (search_loop st ?ts b tabs ([], [])), snd (search_loop st ?ts b tabs ([], [])))"
      using assms(1) by (simp add: search_all_tables_def)
    show "search_all_tables st' phrase b
            = Inr (fst (search_loop st ?ts b tabs ([], [])), snd (search_loop st' ?ts b tabs ([], [])))"
      using assms(2) same by (simp add: search_all_tables_def) (metis prod.collapse)
    show "\<forall>m\<in>set (fst (search_loop st ?ts b tabs ([], []))). table m \<noteq> T" by (rule absent)
  qed
  have second: "\<exists>log. search_all_tables st phrase b = Inr ([], log)"
    if "\<forall>t\<in>set tabs. contributes st ?ts t = None"
  proof -
    have "fst (search_loop st ?ts b tabs ([], [])) = []"
      using that by (rule search_loop_skip)
    then show ?thesis using assms(1)
      by (simp add: search_all_tables_def) (metis prod.collapse)
  qed
  from first second show ?thesis by blast
qed

theorem scan_fault_is_skipped_witness:
  "get_table_names (mem_store refuses [ledger_table True, jobs_table]) = Inr [''Ledger'', ''Jobs'']
   \<and> get_table_names (mem_store refuses [ledger_table False, jobs_table]) = Inr [''Ledger'', ''Jobs'']
   \<and> isl (fst (scan_table (mem_store refuses [ledger_table True, jobs_table]) (split ''Linda'') ''Ledger''))
   \<and> fst (scan_table (mem_store refuses [ledger_table False, jobs_table]) (split ''Linda'') ''Ledger'') = Inr None
   \<and> contributes (mem_store refuses [ledger_table False, jobs_table]) (split ''Linda'') ''Jobs''
       = contributes (mem_store refuses [ledger_table True, jobs_table]) (split ''Linda'') ''Jobs''
   \<and> fst (projr (search_all_tables (mem_store refuses [ledger_table True, jobs_table]) ''Linda'' 10))
       = fst (projr (search_all_tables (mem_store refuses [ledger_table False, jobs_table]) ''Linda'' 10))
   \<and> map table (fst (projr (search_all_tables (mem_store refuses [ledger_table True, jobs_table]) ''Linda'' 10)))
       = [''Jobs'']"
proof -
  let ?st = "mem_store refuses [ledger_table True, jobs_table]"
  let ?st' = "mem_store refuses [ledger_table False, jobs_table]"
  have a1: "get_table_names ?st = Inr [''Ledger'', ''Jobs'']" by code_simp
  have a2: "get_table_names ?st' = Inr [''Ledger'', ''Jobs'']" by code_simp
  have a3: "isl (fst (scan_table ?st (split ''Linda'') ''Ledger''))" by code_simp
  have a4: "fst (scan_table ?st' (split ''Linda'') ''Ledger'') = Inr None" by code_simp
  have a5: "contributes ?st' (split ''Linda'') ''Jobs'' = contributes ?st (split ''Linda'') ''Jobs''"
    by code_simp
  then have a5': "\<forall>t\<in>set [''Ledger'', ''Jobs'']. t \<noteq> ''Ledger''
      \<longrightarrow> contributes ?st' (split ''Linda'') t = contributes ?st (split ''Linda'') t"
    by simp
  from scan_fault_is_skipped [OF a1 a2 a3 a4 a5', of 10]
  obtain found log log' where
    s: "search_all_tables ?st ''Linda'' 10 = Inr (found, log)" and
    s': "search_all_tables ?st' ''Linda'' 10 = Inr (found, log')"
    by blast
  have eq: "fst (projr (search_all_tables ?st ''Linda'' 10))
              = fst (projr (search_all_tables ?st' ''Linda'' 10))"
    unfolding s s' by simp
  have f: "map table (fst (projr (search_all_tables ?st ''Linda'' 10))) = [''Jobs'']"
    by code_simp
  from a1 a2 a3 a4 a5 eq f show ?thesis by blast
qed

section \<open>A budget of one\<close>

text \<open>
  C8. With a budget of 1, when the tables before \<open>t\<close> in the catalogue contribute nothing
  and \<open>t\<close> contributes the match \<open>m\<close>, the result is exactly \<open>[m]\<close>, a match for \<open>t\<close>,
  whatever the later tables hold.
\<close>

theorem budget_one_keeps_first_match:
  assumes "get_table_names st = Inr (pre @ t # post)"
    and "\<forall>u\<in>set pre. contributes st (split phrase) u = None"
    and "contributes st (split phrase) t = Some m"
  shows "\<exists>log. search_all_tables st phrase 1 = Inr ([m], log) \<and> table m = t"
proof -
  let ?ts = "split phrase"
  obtain l1 where l1: "search_loop st ?ts 1 pre ([], []) = ([], l1)"
    using search_loop_skip [OF assms(2), of 1 "[]" "[]"]
    by (cases "search_loop st ?ts 1 pre ([], [])") simp
  have "search_loop st ?ts 1 (pre @ t # post) ([], [])
          = search_loop st ?ts 1 (t # post) ([], l1)"
    by (simp only: search_loop_append l1)
  also have "\<dots> = search_loop st ?ts 1 post ([m], l1 @ snd (scan_table st ?ts t))"
    using assms(3) by (simp only: search_loop_Cons) simp
  also have "\<dots> = ([m], l1 @ snd (scan_table st ?ts t))"
    by (rule search_loop_full) simp
  finally have "search_all_tables st phrase 1 = Inr ([m], l1 @ snd (scan_table st ?ts t))"
    using assms(1) by (simp add: search_all_tables_def)
  moreover have "table m = t" using assms(3) by (rule contributes_table)
  ultimately show ?thesis by blast
qed

theorem budget_one_keeps_first_match_witness:
  "get_table_names (mem_store refuses [sizes_table, contacts_table, jobs_table])
     = Inr ([''Sizes''] @ ''Contacts'' # [''Jobs''])
   \<and> contributes (mem_store refuses [sizes_table, contacts_table, jobs_table]) (split ''Linda'') ''Sizes'' = None
   \<and> contributes (mem_store refuses [sizes_table, contacts_table, jobs_table]) (split ''Linda'') ''Contacts''
       = Some \<lparr>table = ''Contacts'', count = Num 1, columns = [''FirstName'', ''Age''],
               records = [[(''FirstName'', Text ''Linda''), (''Age'', Num 40)]]\<rparr>
   \<and> map_option count
        (contributes (mem_store refuses [sizes_table, contacts_table, jobs_table]) (split ''Linda'') ''Jobs'')
       = Some (Num 2)
   \<and> fst (projr (search_all_tables (mem_store refuses [sizes_table, contacts_table, jobs_table]) ''Linda'' 1))
       = [\<lparr>table = ''Contacts'', count = Num 1, columns = [''FirstName'', ''Age''],
            records = [[(''FirstName'', Text ''Linda''), (''Age'', Num 40)]]\<rparr>]"
proof -
  let ?st = "mem_store refuses [sizes_table, contacts_table, jobs_table]"
  let ?m = "\<lparr>table = ''Contacts'', count = Num 1, columns = [''FirstName'', ''Age''],
             records = [[(''FirstName'', Text ''Linda''), (''Age'', Num 40)]]\<rparr>"
  have a1: "get_table_names ?st = Inr ([''Sizes''] @ ''Contacts'' # [''Jobs''])" by code_simp
  have a2: "contributes ?st (split ''Linda'') ''Sizes'' = None" by code_simp
  then have a2': "\<forall>u\<in>set [''Sizes'']. contributes ?st (split ''Linda'') u = None" by simp
  have a3: "contributes ?st (split ''Linda'') ''Contacts'' = Some ?m" by code_simp
  have a4: "map_option count (contributes ?st (split ''Linda'') ''Jobs'') = Some (Num 2)"
    by code_simp
  from budget_one_keeps_first_match [OF a1 a2' a3]
  obtain log where "search_all_tables ?st ''Linda'' 1 = Inr ([?m], log)" by blast
  then have r: "fst (projr (search_all_tables ?st ''Linda'' 1)) = [?m]" by simp
  from a1 a2 a3 a4 r show ?thesis by blast
qed

section \<open>The text of the predicate\<close>

lemma join_contains:
  "x \<in> set xs \<Longrightarrow> \<exists>pre post. join sep xs = pre @ x @ post"
proof (induction sep xs rule: join.induct)
  case (1 sep)
  then show ?case by simp
next
  case (2 sep y)
  then have "join sep [y] = [] @ x @ []" by simp
  then show ?case by blast
next
  case (3 sep y z zs)
  show ?case
  proof (cases "x = y")
    case True
    then have "join sep (y # z # zs) = [] @ x @ (sep @ join sep (z # zs))" by simp
    then show ?thesis by blast
  next
    case False
    with 3 obtain pre post where "join sep (z # zs) = pre @ x @ post" by auto
    then have "join sep (y # z # zs) = (y @ sep @ pre) @ x @ post" by simp
    then show ?thesis by blast
  qed
qed

lemma where_clause_contains:
  assumes "c \<in> set string_cols" and "term \<in> set search_terms"
  shows "\<exists>pre post. where_clause string_cols search_terms = pre @ col_condition term c @ post"
proof -
  obtain p1 q1 where 1: "join '' OR '' (map (col_condition term) string_cols)
                           = p1 @ col_condition term c @ q1"
    using join_contains [of "col_condition term c" "map (col_condition term) string_cols" "'' OR ''"]
      assms(1)
    by auto
  obtain p2 q2 where 2: "where_clause string_cols search_terms
                           = p2 @ term_condition string_cols term @ q2"
    using join_contains [of "term_condition string_cols term"
                            "map (term_condition string_cols) search_terms" "'' AND ''"] assms(2)
    by (auto simp: where_clause_def)
  have "where_clause string_cols search_terms
          = (p2 @ ''('' @ p1) @ col_condition term c @ (q1 @ '')'' @ q2)"
    using 1 2 by (simp add: term_condition_def)
  then show ?thesis by blast
qed

text \<open>
  C6. When the table \<open>t\<close> has the string column \<open>c\<close> and \<open>term\<close> is one of the terms of the
  phrase, a statement is sent for \<open>t\<close> whose text holds \<^verbatim>\<open>[c] LIKE '%term%'\<close> with the
  term as it stands, whatever characters it has: nothing is escaped.
\<close>

theorem term_is_spliced_verbatim:
  assumes "get_columns st t = Inr cols"
    and "c \<in> set (string_cols_of cols)"
    and "term \<in> set (split phrase)"
  shows "\<exists>sql pre post.
           Execute t sql \<in> set (snd (scan_table st (split phrase) t))
           \<and> sql = pre @ ''['' @ c @ ''] LIKE '%'' @ term @ ''%'' @ [CHR 0x27] @ post"
proof -
  let ?wc = "where_clause (string_cols_of cols) (split phrase)"
  have ne: "string_cols_of cols \<noteq> []" using assms(2) by auto
  have sent: "Execute t (select_sql t ?wc) \<in> set (snd (scan_table st (split phrase) t))"
    using assms(1) ne by (simp add: scan_table_def Let_def split: sum.splits)
  obtain pre post where "?wc = pre @ col_condition term c @ post"
    using where_clause_contains [OF assms(2,3)] by blast
  then have "select_sql t ?wc
      = (''SELECT TOP 10 * FROM ['' @ t @ ''] WHERE '' @ pre)
          @ ''['' @ c @ ''] LIKE '%'' @ term @ ''%'' @ [CHR 0x27] @ post"
    by (simp add: select_sql_def col_condition_def)
  with sent show ?thesis by blast
qed

theorem term_is_spliced_verbatim_witness:
  "get_columns (mem_store refuses [contacts_table]) ''Contacts'' = Inr (mt_columns contacts_table)
   \<and> ''FirstName'' \<in> set (string_cols_of (mt_columns contacts_table))
   \<and> ''50%_[x]'' \<in> set (split ''O'Brien 50%_[x]'')
   \<and> (\<exists>sql pre post.
         Execute ''Contacts'' sql
           \<in> set (snd (scan_table (mem_store refuses [contacts_table]) (split ''O'Brien 50%_[x]'') ''Contacts''))
         \<and> sql = pre @ ''[FirstName] LIKE '%50%_[x]%'' @ [CHR 0x27] @ post)"
proof -
  let ?st = "mem_store refuses [contacts_table]"
  have a1: "get_columns ?st ''Contacts'' = Inr (mt_columns contacts_table)" by code_simp
  have a2: "''FirstName'' \<in> set (string_cols_of (mt_columns contacts_table))" by code_simp
  have a3: "''50%_[x]'' \<in> set (split ''O'Brien 50%_[x]'')" by code_simp
  from term_is_spliced_verbatim [OF a1 a2 a3]
  have "\<exists>sql pre post.
         Execute ''Contacts'' sql
           \<in> set (snd (scan_table ?st (split ''O'Brien 50%_[x]'') ''Contacts''))
         \<and> sql = pre @ ''[FirstName] LIKE '%50%_[x]%'' @ [CHR 0x27] @ post"
    by simp
  with a1 a2 a3 show ?thesis by blast
qed

section \<open>When a match is created\<close>

lemma strip_prefix_append:
  "strip_prefix p (p @ s) = Some s"
  by (induction p) simp_all

lemma modelled_select_at_most_ten:
  assumes "modelled_answer db (select_sql t wc) = Some (Inr res)"
  shows "length (res_rows res) \<le> 10"
proof -
  have "strip_prefix ''SELECT TOP 10 * FROM ['' (select_sql t wc) = Some (t @ ''] WHERE '' @ wc)"
    unfolding select_sql_def by (rule strip_prefix_append)
  then have "run_statement db False (t @ ''] WHERE '' @ wc) = Some (Inr res)"
    using assms by (simp add: modelled_answer_def split: if_splits)
  then show ?thesis
    by (auto simp: run_statement_def split: option.splits sum.splits prod.splits)
qed

lemma refusing_select_at_most_ten:
  assumes "mem_execute refuses db (select_sql t wc) = Inr res"
  shows "length (res_rows res) \<le> 10"
proof (cases "modelled_answer db (select_sql t wc)")
  case None
  with assms show ?thesis by (simp add: mem_execute_def refuses_def)
next
  case (Some answer)
  with assms have "modelled_answer db (select_sql t wc) = Some (Inr res)"
    by (simp add: mem_execute_def)
  then show ?thesis by (rule modelled_select_at_most_ten)
qed

text \<open>
  C4, as the code has it. For a table with a string column, no match is created exactly
  when the sample statement raises or returns no row, or the COUNT statement raises (or
  has no value to give). When the sample statement returns a row and the COUNT statement
  answers \<open>v\<close>, the match has \<open>v\<close> as its count and one record for each row returned; the
  two statements sent have the same WHERE clause. On the reference store a sample has
  at most ten rows: for every statement when the store refuses what is outside its
  fragment, and for the statements of the fragment whatever the store does outside.
\<close>

theorem scan_creates_match:
  assumes "get_columns st t = Inr cols" and "string_cols_of cols \<noteq> []"
  shows "(contributes st ts t = None \<longleftrightarrow>
            (case execute st (select_sql t (where_clause (string_cols_of cols) ts)) of
               Inl e \<Rightarrow> True
             | Inr res \<Rightarrow>
                 res_rows res = [] \<or>
                 (case execute st (count_sql t (where_clause (string_cols_of cols) ts)) of
                    Inl e \<Rightarrow> True
                  | Inr cres \<Rightarrow> isl (scalar cres))))
       \<and> (\<forall>res cres v.
             execute st (select_sql t (where_clause (string_cols_of cols) ts)) = Inr res
             \<and> res_rows res \<noteq> []
             \<and> execute st (count_sql t (where_clause (string_cols_of cols) ts)) = Inr cres
             \<and> scalar cres = Inr v
             \<longrightarrow> contributes st ts t
                   = Some \<lparr>table = t, count = v, columns = res_keys res,
                           records = map (record_of (res_keys res)) (res_rows res)\<rparr>
                 \<and> snd (scan_table st ts t)
                   = [GetColumns t,
                      Execute t (select_sql t (where_clause (string_cols_of cols) ts)),
                      Execute t (count_sql t (where_clause (string_cols_of cols) ts))])
       \<and> (\<forall>db m. st = mem_store refuses db \<and> contributes st ts t = Some m \<longrightarrow> length (records m) \<le> 10)
       \<and> (\<forall>other db m.
             st = mem_store other db \<and> contributes st ts t = Some m
             \<and> modelled_answer db (select_sql t (where_clause (string_cols_of cols) ts)) \<noteq> None
             \<longrightarrow> length (records m) \<le> 10)"
proof (intro conjI allI impI)
  show "contributes st ts t = None \<longleftrightarrow>
            (case execute st (select_sql t (where_clause (string_cols_of cols) ts)) of
               Inl e \<Rightarrow> True
             | Inr res \<Rightarrow>
                 res_rows res = [] \<or>
                 (case execute st (count_sql t (where_clause (string_cols_of cols) ts)) of
                    Inl e \<Rightarrow> True
                  | Inr cres \<Rightarrow> isl (scalar cres)))"
    using assms by (auto simp: contributes_def scan_table_def Let_def split: sum.splits)
next
  fix res cres v
  assume h: "execute st (select_sql t (where_clause (string_cols_of cols) ts)) = Inr res
             \<and> res_rows res \<noteq> []
             \<and> execute st (count_sql t (where_clause (string_cols_of cols) ts)) = Inr cres
             \<and> scalar cres = Inr v"
  show "contributes st ts t
          = Some \<lparr>table = t, count = v, columns = res_keys res,
                  records = map (record_of (res_keys res)) (res_rows res)\<rparr>"
    using assms h by (simp add: contributes_def scan_table_def Let_def)
  show "snd (scan_table st ts t)
          = [GetColumns t,
             Execute t (select_sql t (where_clause (string_cols_of cols) ts)),
             Execute t (count_sql t (where_clause (string_cols_of cols) ts))]"
    using assms h by (simp add: scan_table_def Let_def)
next
  fix db m
  assume h: "st = mem_store refuses db \<and> contributes st ts t = Some m"
  then obtain res where
    sel: "execute st (select_sql t (where_clause (string_cols_of cols) ts)) = Inr res" and
    recs: "records m = map (record_of (res_keys res)) (res_rows res)"
    using assms
    by (auto simp: contributes_def scan_table_def Let_def split: sum.splits if_splits)
  have "mem_execute refuses db (select_sql t (where_clause (string_cols_of cols) ts)) = Inr res"
    using sel h by (simp add: mem_store_def)
  then have "length (res_rows res) \<le> 10" by (rule refusing_select_at_most_ten)
  with recs show "length (records m) \<le> 10" by simp
next
  fix other db m
  assume h: "st = mem_store other db \<and> contributes st ts t = Some m
             \<and> modelled_answer db (select_sql t (where_clause (string_cols_of cols) ts)) \<noteq> None"
  then obtain res where
    sel: "execute st (select_sql t (where_clause (string_cols_of cols) ts)) = Inr res" and
    recs: "records m = map (record_of (res_keys res)) (res_rows res)"
    using assms
    by (auto simp: contributes_def scan_table_def Let_def split: sum.splits if_splits)
  have "modelled_answer db (select_sql t (where_clause (string_cols_of cols) ts)) = Some (Inr res)"
    using sel h by (auto simp: mem_store_def mem_execute_def)
  then have "length (res_rows res) \<le> 10" by (rule modelled_select_at_most_ten)
  with recs show "length (records m) \<le> 10" by simp
qed

theorem scan_creates_match_witness:
  "get_columns (mem_store refuses [people_table]) ''People'' = Inr (mt_columns people_table)
   \<and> string_cols_of (mt_columns people_table) \<noteq> []
   \<and> map_option count (contributes (mem_store refuses [people_table]) (split ''Linda'') ''People'')
       = Some (Num 12)
   \<and> contributes (mem_store refuses [people_table]) (split ''Linda'') ''People''
       = Some (the (contributes (mem_store refuses [people_table]) (split ''Linda'') ''People''))
   \<and> length (records (the (contributes (mem_store refuses [people_table]) (split ''Linda'') ''People'')))
       \<le> 10"
proof -
  let ?st = "mem_store refuses [people_table]"
  have a1: "get_columns ?st ''People'' = Inr (mt_columns people_table)" by code_simp
  have a2: "string_cols_of (mt_columns people_table) \<noteq> []" by code_simp
  have c: "map_option count (contributes ?st (split ''Linda'') ''People'') = Some (Num 12)"
    by code_simp
  then obtain m where m: "contributes ?st (split ''Linda'') ''People'' = Some m" by auto
  from scan_creates_match [OF a1 a2, of "split ''Linda''"] m
  have "length (records m) \<le> 10" by blast
  with a1 a2 c m show ?thesis by simp
qed

text \<open>
  C4 as stated fails: on a store whose COUNT statement fails, the sample statement for
  \<open>Contacts\<close> returns a row and yet no match is created.
\<close>

theorem scan_creates_match_counterexample:
  "execute count_timeout_store
     (select_sql ''Contacts'' (where_clause [''FirstName''] (split ''Linda'')))
     = Inr \<lparr>res_keys = [''FirstName'', ''Age''], res_rows = [[Text ''Linda'', Num 40]]\<rparr>
   \<and> contributes count_timeout_store (split ''Linda'') ''Contacts'' = None
   \<and> map_sum id fst (search_all_tables count_timeout_store ''Linda'' 10) = Inr []"
  by code_simp

section \<open>The name of the person\<close>

text \<open>
  C5. The name is to be the first candidate that is present and not empty, in the order
  FirstName with LastName, Contact, Attention, Name, so that an empty \<open>Contact\<close> does not
  hide a \<open>Name\<close>. The code does otherwise. The table \<open>Inquiries\<close> has the row with an
  empty \<open>Contact\<close> and the \<open>Name\<close> Bob; the search for \<open>Bob\<close> returns it, and
  \<open>introduce_person\<close> answers with the name \<open>"Unknown"\<close>, where the first present and
  non-empty candidate is \<open>Bob\<close>.
\<close>

theorem empty_contact_hides_name:
  "map_sum id fst (search_all_tables (mem_store refuses [inquiries_table]) ''Bob'' 10)
     = Inr [\<lparr>table = ''Inquiries'', count = Num 1, columns = [''Contact'', ''Name''],
              records = [[(''Contact'', Text []), (''Name'', Text ''Bob'')]]\<rparr>]
   \<and> introduce_person (Inr ''Bob is a contact.'')
        [\<lparr>table = ''Inquiries'', count = Num 1, columns = [''Contact'', ''Name''],
          records = [[(''Contact'', Text []), (''Name'', Text ''Bob'')]]\<rparr>]
       = Inr \<lparr>name = ''Unknown'', role_title = ''Not specified'',
               company = ''Associated organization'',
               contact_info = ''Email: N/A, Phone: N/A'',
               relationship = ''Found in 1 system(s)'',
               summary = ''Bob is a contact.'', data_sources = [''Inquiries'']\<rparr>
   \<and> extract_name [(''Contact'', Text []), (''Name'', Text ''Bob'')] = Text ''Unknown''
   \<and> spec_name [(''Contact'', Text []), (''Name'', Text ''Bob'')] = Text ''Bob''"
  by code_simp

section \<open>The term that is searched\<close>

lemma split_aux_single:
  "\<forall>c\<in>set t. \<not> is_space c \<Longrightarrow> cur @ t \<noteq> [] \<Longrightarrow> split_aux cur t = [cur @ t]"
  by (induction t arbitrary: cur) auto

lemma split_aux_tokens:
  "\<forall>c\<in>set cur. \<not> is_space c \<Longrightarrow> tok \<in> set (split_aux cur s)
     \<Longrightarrow> tok \<noteq> [] \<and> (\<forall>c\<in>set tok. \<not> is_space c)"
proof (induction s arbitrary: cur)
  case Nil
  then show ?case by (auto split: if_splits)
next
  case (Cons a s)
  show ?case
  proof (cases "is_space a")
    case True
    with Cons.prems have "tok = cur \<and> cur \<noteq> [] \<or> tok \<in> set (split_aux [] s)"
      by (auto split: if_splits)
    then show ?thesis using Cons.prems(1) Cons.IH [of "[]"] by auto
  next
    case False
    with Cons.prems have "tok \<in> set (split_aux (cur @ [a]) s)" by simp
    moreover have "\<forall>c\<in>set (cur @ [a]). \<not> is_space c" using False Cons.prems(1) by simp
    ultimately show ?thesis by (rule Cons.IH [rotated])
  qed
qed

lemma split_aux_nonempty:
  "cur \<noteq> [] \<or> (\<exists>c\<in>set s. \<not> is_space c) \<Longrightarrow> split_aux cur s \<noteq> []"
  by (induction s arbitrary: cur) auto

lemma split_token:
  "tok \<in> set (split s) \<Longrightarrow> tok \<noteq> [] \<and> (\<forall>c\<in>set tok. \<not> is_space c)"
  unfolding split_def using split_aux_tokens [of "[]" tok s] by simp

lemma split_of_token:
  "tok \<in> set (split s) \<Longrightarrow> split tok = [tok]"
  using split_token [of tok s] split_aux_single [of tok "[]"] by (simp add: split_def)

lemma split_aux_all_space:
  "\<forall>c\<in>set s. is_space c \<Longrightarrow> split_aux [] s = []"
  by (induction s) auto

text \<open>
  C10, as the code has it. For a question with a space and a character that is not
  whitespace, the term searched is the last token of the question, a single term for the
  search, and the search is the one of \<open>search_all_tables\<close> on that token with a budget
  of ten. For a question with a space that is all whitespace, \<open>IndexError\<close> is raised
  and nothing is searched. A question without a space is searched whole.
\<close>

theorem last_token_is_searched:
  "(CHR '' '' \<in> set question \<and> (\<exists>c\<in>set question. \<not> is_space c)
      \<longrightarrow> split question \<noteq> []
          \<and> search_term_of question = Inr (last (split question))
          \<and> split (last (split question)) = [last (split question)]
          \<and> query_search st question = search_all_tables st (last (split question)) 10)
   \<and> (CHR '' '' \<in> set question \<and> (\<forall>c\<in>set question. is_space c)
      \<longrightarrow> search_term_of question = Inl IndexError
          \<and> query_search st question = Inl IndexError)
   \<and> (CHR '' '' \<notin> set question
      \<longrightarrow> search_term_of question = Inr question
          \<and> query_search st question = search_all_tables st question 10)"
proof (intro conjI impI)
  assume h: "CHR '' '' \<in> set question \<and> (\<exists>c\<in>set question. \<not> is_space c)"
  show ne: "split question \<noteq> []"
    using h split_aux_nonempty [of "[]" question] by (simp add: split_def)
  show st: "search_term_of question = Inr (last (split question))"
    using h ne by (cases "split question") (simp_all add: search_term_of_def)
  have "last (split question) \<in> set (split question)" using ne by simp
  then show "split (last (split question)) = [last (split question)]"
    by (rule split_of_token)
  show "query_search st question = search_all_tables st (last (split question)) 10"
    using st by (simp add: query_search_def)
next
  assume h: "CHR '' '' \<in> set question \<and> (\<forall>c\<in>set question. is_space c)"
  then have "split question = []" by (simp add: split_def split_aux_all_space)
  with h show e: "search_term_of question = Inl IndexError"
    by (simp add: search_term_of_def)
  then show "query_search st question = Inl IndexError"
    by (simp add: query_search_def)
next
  assume h: "CHR '' '' \<notin> set question"
  then show w: "search_term_of question = Inr question"
    by (simp add: search_term_of_def)
  then show "query_search st question = search_all_tables st question 10"
    by (simp add: query_search_def)
qed

theorem last_token_is_searched_witness:
  "CHR '' '' \<in> set ''who is Mark Elinski''
   \<and> list_ex (\<lambda>c. \<not> is_space c) ''who is Mark Elinski''
   \<and> last (split ''who is Mark Elinski'') = ''Elinski''
   \<and> search_term_of ''who is Mark Elinski'' = Inr ''Elinski''
   \<and> split ''Elinski'' = [''Elinski'']
   \<and> query_search (mem_store refuses [people_table]) ''who is Mark Elinski''
       = search_all_tables (mem_store refuses [people_table]) ''Elinski'' 10
   \<and> CHR '' '' \<in> set [CHR '' '', CHR 0xA0]
   \<and> list_all is_space [CHR '' '', CHR 0xA0]
   \<and> query_search (mem_store refuses [people_table]) [CHR '' '', CHR 0xA0] = Inl IndexError
   \<and> CHR '' '' \<notin> set ''Elinski''
   \<and> query_search (mem_store refuses [people_table]) ''Elinski''
       = search_all_tables (mem_store refuses [people_table]) ''Elinski'' 10"
proof -
  let ?q = "''who is Mark Elinski''" and ?st = "mem_store refuses [people_table]"
  have a1: "CHR '' '' \<in> set ?q" by simp
  have a2: "list_ex (\<lambda>c. \<not> is_space c) ?q" by code_simp
  then have a2': "\<exists>c\<in>set ?q. \<not> is_space c" by (simp only: list_ex_iff)
  have l: "last (split ?q) = ''Elinski''" by code_simp
  from last_token_is_searched [of ?q ?st] a1 a2'
  have "search_term_of ?q = Inr (last (split ?q))"
    and "split (last (split ?q)) = [last (split ?q)]"
    and "query_search ?st ?q = search_all_tables ?st (last (split ?q)) 10"
    by blast+
  then have first: "search_term_of ?q = Inr ''Elinski''" "split ''Elinski'' = [''Elinski'']"
    "query_search ?st ?q = search_all_tables ?st ''Elinski'' 10"
    unfolding l by simp_all
  have b1: "CHR '' '' \<in> set [CHR '' '', CHR 0xA0]" by simp
  have b2: "list_all is_space [CHR '' '', CHR 0xA0]" by code_simp
  then have b2': "\<forall>c\<in>set [CHR '' '', CHR 0xA0]. is_space c" by (simp only: list_all_iff)
  from last_token_is_searched [of "[CHR '' '', CHR 0xA0]" ?st] b1 b2'
  have second: "query_search ?st [CHR '' '', CHR 0xA0] = Inl IndexError" by blast
  have c1: "CHR '' '' \<notin> set ''Elinski''" by simp
  from last_token_is_searched [of "''Elinski''" ?st] c1
  have third: "query_search ?st ''Elinski'' = search_all_tables ?st ''Elinski'' 10" by blast
  from a1 a2 l first b1 b2 second c1 third show ?thesis by blast
qed

text \<open>
  C10 as stated fails: a question that is one space has a space and no token, and
  indexing the empty list raises before any search; so does a space followed by a
  no-break space. A question without a space is searched whole, and a tab in it separates
  two terms.
\<close>

theorem last_token_is_searched_counterexample:
  "CHR '' '' \<in> set '' ''
   \<and> split '' '' = []
   \<and> search_term_of '' '' = Inl IndexError
   \<and> query_search (mem_store refuses [people_table]) '' '' = Inl IndexError
   \<and> search_term_of [CHR '' '', CHR 0xA0] = Inl IndexError
   \<and> search_term_of [CHR ''M'', CHR 0x09, CHR ''E''] = Inr [CHR ''M'', CHR 0x09, CHR ''E'']
   \<and> split [CHR ''M'', CHR 0x09, CHR ''E''] = [''M'', ''E'']"
  by code_simp

section \<open>The source table of a record\<close>

lemma combine_results_foldl:
  "foldl (\<lambda>(all_records, all_tables) res.
              (all_records
                 @ map (\<lambda>record. dict_set ''_source_table'' (Text (table res)) record)
                       (records res),
               all_tables @ [table res]))
         (rs, ts) table_results
     = (rs @ concat (map (\<lambda>m. map (dict_set ''_source_table'' (Text (table m))) (records m))
                         table_results),
        ts @ map table table_results)"
  by (induction table_results arbitrary: rs ts) simp_all

lemma map_of_dict_set:
  "map_of (dict_set key v d) = (map_of d)(key \<mapsto> v)"
  by (induction d) (auto simp: fun_eq_iff)

text \<open>
  C9, as the code has it. \<open>combine_results\<close> returns, for each match in order, a copy of
  each of its records in which \<open>_source_table\<close> is the name of the match's table and every
  other key is as in the record, and the list of the table names. In the scenario, on
  the reference store, the search returns one match for \<open>Contacts\<close> with count 1 and the
  row as its record, and the combined list holds that row with \<open>_source_table\<close> added.
\<close>

theorem combined_records_carry_source:
  "combine_results table_results
     = (concat (map (\<lambda>m. map (dict_set ''_source_table'' (Text (table m))) (records m))
                    table_results),
        map table table_results)
   \<and> (\<forall>m\<in>set table_results. \<forall>r\<in>set (records m).
         dict_set ''_source_table'' (Text (table m)) r \<in> set (fst (combine_results table_results))
         \<and> map_of (dict_set ''_source_table'' (Text (table m)) r)
             = (map_of r)(''_source_table'' \<mapsto> Text (table m)))
   \<and> map_sum id fst (search_all_tables (mem_store other [contacts_table]) ''Linda'' 10)
       = Inr [\<lparr>table = ''Contacts'', count = Num 1, columns = [''FirstName'', ''Age''],
                records = [[(''FirstName'', Text ''Linda''), (''Age'', Num 40)]]\<rparr>]
   \<and> combine_results
        [\<lparr>table = ''Contacts'', count = Num 1, columns = [''FirstName'', ''Age''],
          records = [[(''FirstName'', Text ''Linda''), (''Age'', Num 40)]]\<rparr>]
       = ([[(''FirstName'', Text ''Linda''), (''Age'', Num 40),
            (''_source_table'', Text ''Contacts'')]],
          [''Contacts''])"
proof (intro conjI ballI)
  show c: "combine_results table_results
     = (concat (map (\<lambda>m. map (dict_set ''_source_table'' (Text (table m))) (records m))
                    table_results),
        map table table_results)"
    unfolding combine_results_def by (simp add: combine_results_foldl)
  show "dict_set ''_source_table'' (Text (table m)) r \<in> set (fst (combine_results table_results))"
    if "m \<in> set table_results" and "r \<in> set (records m)" for m r
    unfolding c using that by auto
  show "map_of (dict_set ''_source_table'' (Text (table m)) r)
          = (map_of r)(''_source_table'' \<mapsto> Text (table m))" for m r
    by (rule map_of_dict_set)
  show "map_sum id fst (search_all_tables (mem_store other [contacts_table]) ''Linda'' 10)
       = Inr [\<lparr>table = ''Contacts'', count = Num 1, columns = [''FirstName'', ''Age''],
                records = [[(''FirstName'', Text ''Linda''), (''Age'', Num 40)]]\<rparr>]"
    by code_simp
  show "combine_results
        [\<lparr>table = ''Contacts'', count = Num 1, columns = [''FirstName'', ''Age''],
          records = [[(''FirstName'', Text ''Linda''), (''Age'', Num 40)]]\<rparr>]
       = ([[(''FirstName'', Text ''Linda''), (''Age'', Num 40),
            (''_source_table'', Text ''Contacts'')]],
          [''Contacts''])"
    by code_simp
qed

theorem combined_records_carry_source_witness:
  "list_all (\<lambda>r. map_of r ''_source_table'' = Some (Text ''Jobs''))
     (fst (combine_results
        [\<lparr>table = ''Jobs'', count = Num 2, columns = [''JobNumber'', ''Attention''],
          records = [[(''JobNumber'', Num 1), (''Attention'', Text ''Linda Hall'')],
                     [(''JobNumber'', Num 3), (''Attention'', Text ''LINDA H.'')]]\<rparr>]))
   \<and> length (fst (combine_results
        [\<lparr>table = ''Jobs'', count = Num 2, columns = [''JobNumber'', ''Attention''],
          records = [[(''JobNumber'', Num 1), (''Attention'', Text ''Linda Hall'')],
                     [(''JobNumber'', Num 3), (''Attention'', Text ''LINDA H.'')]]\<rparr>])) = 2"
proof -
  let ?m = "\<lparr>table = ''Jobs'', count = Num 2, columns = [''JobNumber'', ''Attention''],
          records = [[(''JobNumber'', Num 1), (''Attention'', Text ''Linda Hall'')],
                     [(''JobNumber'', Num 3), (''Attention'', Text ''LINDA H.'')]]\<rparr>"
  from combined_records_carry_source [of "[?m]"]
  have "combine_results [?m]
     = (concat (map (\<lambda>m. map (dict_set ''_source_table'' (Text (table m))) (records m)) [?m]),
        map table [?m])"
    by blast
  then have "fst (combine_results [?m])
     = map (dict_set ''_source_table'' (Text ''Jobs'')) (records ?m)"
    by simp
  then show ?thesis by (simp add: map_of_dict_set)
qed

text \<open>
  C9 as stated fails: the records of the match that the search returns have no
  \<open>_source_table\<close>; only the copies made by \<open>combine_results\<close> have it.
\<close>

theorem combined_records_carry_source_counterexample:
  "map records (fst (projr (search_all_tables (mem_store refuses [contacts_table]) ''Linda'' 10)))
     = [[[(''FirstName'', Text ''Linda''), (''Age'', Num 40)]]]
   \<and> map_of [(''FirstName'', Text ''Linda''), (''Age'', Num 40)] ''_source_table'' = None"
  by code_simp

section \<open>The reference store reads the statements of the search\<close>








section \<open>What LIKE accepts\<close>





section \<open>What the records of a result contain\<close>













end
